theory Spec2Isabelle
  imports Main "HOL-Library.Multiset"
begin

section \<open>Data model\<close>

text \<open>
  Timestamps are the readings of \<open>datetime.now()\<close>. The clock is outside the program,
  so every handler takes the reading it would obtain as an argument \<open>now\<close>. The
  unit is the second, which is also the unit of the cache's time-to-live.
\<close>

type_synonym timestamp = int

text \<open>
  \<open>models.py\<close>, class \<open>UrlsDB\<close>: one row of the table \<open>urls_db\<close>. The column
  \<open>short\<close> is the primary key; \<open>last_time\<close> is nullable and has no default.
  \<open>get_num\<close> is a Python integer in the program and a \<open>Column(Integer)\<close>, 32 bits
  wide, in the database: a value above \<open>int32_max\<close> cannot be written.
\<close>

record UrlsDB =
  short :: string
  original :: string
  registered_at :: timestamp
  get_num :: int
  last_time :: "timestamp option"

definition int32_max :: int where
  "int32_max = 2147483647"

text \<open>
  \<open>schemas.py\<close>. The request and response models share field names in the source
  (\<open>orig_url\<close>, \<open>registered_at\<close>, \<open>get_num\<close>, \<open>last_time\<close>); record fields are
  global constants here, so the later ones carry a suffix: \<open>_u\<close> for \<open>UrlUpdate\<close>,
  \<open>_r\<close> for the responses.
\<close>

record ShortUrlCreate =
  orig_url :: string
  alias_url :: "string option"

record UrlUpdate =
  orig_url_u :: string

record ShortUrlResponse =
  orig_url_r :: string
  short_url :: string
  registered_at_r :: timestamp

record ShortUrlStatsResponse = ShortUrlResponse +
  get_num_r :: int
  last_time_r :: "timestamp option"

text \<open>
  What a handler can raise: the two \<open>HTTPException\<close>s of \<open>main.py\<close> (status 404 and
  409), and the exceptions of the database layer that the handlers do not catch and
  the application answers with status 500: \<open>scalar_one_or_none\<close> on more than one
  row, the insert of a second row with the same primary key, and the write of an
  integer that does not fit its column.
\<close>

datatype error = Not_Found | Conflict | MultipleResultsFound | IntegrityError | DataError

text \<open>
  The argument \<open>db\<close> of the handlers is the \<open>AsyncSession\<close> object that
  \<open>get_async_session\<close> yields. The handlers use it to reach the one table; the cache
  decorator sees it as an argument of the call. It is called a session here (the
  field \<open>db\<close> of the state below is the table), and it is given by its identity.
\<close>

type_synonym session = nat

text \<open>
  The state the handlers work on: the table, the cache, and the file \<open>tw.txt\<close> that
  \<open>short_to_orig\<close> overwrites (\<open>None\<close> while the file does not exist). The table is
  the list of its rows; the place of a row in the list is the model's and means
  nothing: the selects of the handlers have no \<open>ORDER BY\<close>, and nothing that a
  handler returns depends on the order of the list. A cache entry belongs to one
  call of \<open>short_to_orig\<close>, identified by the arguments of the call, and holds the
  value that the call returned and the time at which the entry expires.
\<close>

type_synonym cache_store = "(string \<times> session) \<rightharpoonup> (string \<times> timestamp)"

record state =
  db :: "UrlsDB list"
  cache :: cache_store
  tw_txt :: "string option"

section \<open>The database layer\<close>

text \<open>\<open>Result.scalar_one_or_none()\<close>: the row, nothing, or an exception on several rows.\<close>

fun scalar_one_or_none :: "'a list \<Rightarrow> error + 'a option" where
  "scalar_one_or_none [] = Inr None"
| "scalar_one_or_none [x] = Inr (Some x)"
| "scalar_one_or_none (x # y # zs) = Inl MultipleResultsFound"

text \<open>\<open>select(UrlsDB).where(UrlsDB.short == short_code)\<close>\<close>

definition select_short :: "string \<Rightarrow> UrlsDB list \<Rightarrow> UrlsDB list" where
  "select_short short_code rows = filter (\<lambda>r. short r = short_code) rows"

text \<open>
  An \<open>UPDATE ... WHERE short = short_code\<close> applying \<open>f\<close> to the matching rows. Where
  the database puts the new version of a row is its own matter; the list keeps the
  row where it was, which no result shows.
\<close>

definition update_short :: "string \<Rightarrow> (UrlsDB \<Rightarrow> UrlsDB) \<Rightarrow> UrlsDB list \<Rightarrow> UrlsDB list" where
  "update_short short_code f rows = map (\<lambda>r. if short r = short_code then f r else r) rows"

section \<open>The cache\<close>

text \<open>
  Modelled from the spec: the cache backend (\<open>fastapi_cache\<close> over Redis) is a library
  that the repository imports; its code is not part of the sources. Following the
  spec's cache interface (\<open>get(key)\<close>, \<open>set(key, value, ttl)\<close>, \<open>delete(key)\<close>,
  entries expiring after their time-to-live), the cache is a key-value map with an
  expiry time for each entry.
\<close>

definition cache_get :: "timestamp \<Rightarrow> string \<times> session \<Rightarrow> cache_store \<Rightarrow> string option" where
  "cache_get now key c =
     (case c key of
        None \<Rightarrow> None
      | Some (v, expires) \<Rightarrow> if now < expires then Some v else None)"

definition cache_set ::
  "timestamp \<Rightarrow> string \<times> session \<Rightarrow> string \<Rightarrow> int \<Rightarrow> cache_store \<Rightarrow> cache_store" where
  "cache_set now key v ttl c = c(key \<mapsto> (v, now + ttl))"

text \<open>
  Modelled from the spec: what \<open>FastAPICache.clear(key=f"short_to_orig:{short_code}")\<close>
  removes is decided inside the cache library. By the spec, invalidation removes what
  the cache holds for the given short code, and is a no-op when it holds nothing:
  here, every entry of a call of \<open>short_to_orig\<close> with this code.
\<close>

definition cache_clear :: "string \<Rightarrow> cache_store \<Rightarrow> cache_store" where
  "cache_clear short_code c = (\<lambda>key. if fst key = short_code then None else c key)"

text \<open>\<open>main.py\<close>, \<open>invalidate_cache\<close>.\<close>

definition invalidate_cache :: "string \<Rightarrow> state \<Rightarrow> state" where
  "invalidate_cache short_code s = s\<lparr>cache := cache_clear short_code (cache s)\<rparr>"

text \<open>
  The decorator \<open>@cache(expire=...)\<close> of the cache library, which \<open>main.py\<close> puts
  around the whole of \<open>short_to_orig\<close>. It stands in the place of the call: when the
  cache holds a live entry for the arguments of the call, the entry's value is the
  result and the decorated function is not called; otherwise the function runs, and
  the value it returns is stored for \<open>expire\<close> seconds. An exception of the function
  passes through and nothing is stored. (The resolver of the spec records a visit
  after a hit as well; the decorated handler cannot, as its body is what the hit
  skips.)
\<close>

definition cached ::
  "int \<Rightarrow> string \<times> session \<Rightarrow> timestamp \<Rightarrow> (state \<Rightarrow> (error + string) \<times> state) \<Rightarrow> state
     \<Rightarrow> (error + string) \<times> state" where
  "cached expire key now f s =
     (case cache_get now key (cache s) of
        Some v \<Rightarrow> (Inr v, s)
      | None \<Rightarrow>
          (case f s of
             (Inl e, s') \<Rightarrow> (Inl e, s')
           | (Inr v, s') \<Rightarrow> (Inr v, s'\<lparr>cache := cache_set now key v expire (cache s')\<rparr>)))"

section \<open>The code generator\<close>

text \<open>
  \<open>generate_short_code\<close> returns \<open>shortuuid.uuid()\<close>. The library is not part of the
  sources. Its \<open>uuid()\<close> draws a random UUID and writes the UUID's 128-bit number in
  base 57 over the alphabet below, most significant digit first, padded with the
  alphabet's first letter to 22 characters (the short ASCII string that the spec
  expects of the generator). The random number is the argument \<open>uuid\<close>; the
  encoding is the library's \<open>int_to_string\<close>:
  \<^verbatim>\<open>
  while number:
      number, digit = divmod(number, alpha_len)
      output += alphabet[digit]
  if padding:
      remainder = max(padding - len(output), 0)
      output = output + alphabet[0] * remainder
  return output[::-1]
  \<close>
\<close>

definition alphabet :: string where
  "alphabet = ''23456789ABCDEFGHJKLMNPQRSTUVWXYZabcdefghijkmnopqrstuvwxyz''"

function digits_of :: "nat \<Rightarrow> string" where
  "digits_of number =
     (if number = 0 then []
      else alphabet ! (number mod length alphabet) # digits_of (number div length alphabet))"
  by pat_completeness auto
termination
  by (relation "measure id") (auto simp: alphabet_def)

definition int_to_string :: "nat \<Rightarrow> nat \<Rightarrow> string" where
  "int_to_string number padding =
     (let output = digits_of number;
          remainder = padding - length output
      in rev (output @ replicate remainder (alphabet ! 0)))"

definition generate_short_code :: "nat \<Rightarrow> string" where
  "generate_short_code uuid = int_to_string uuid 22"

section \<open>The handlers of \<open>main.py\<close>\<close>

text \<open>The dictionary that \<open>search_links\<close>, \<open>create_short\<close> and \<open>update_original_url\<close> build.\<close>

definition to_response :: "UrlsDB \<Rightarrow> ShortUrlResponse" where
  "to_response url =
     \<lparr>orig_url_r = original url, short_url = short url, registered_at_r = registered_at url\<rparr>"

text \<open>
  \<open>search_links\<close>: the rows whose \<open>original\<close> equals the query, 404 when there is none.
  The select has no \<open>ORDER BY\<close>, so the order of the list that the handler returns is
  the database's choice: the result is the multiset of the responses.
\<close>

definition search_links :: "string \<Rightarrow> state \<Rightarrow> (error + ShortUrlResponse multiset) \<times> state" where
  "search_links original_url s =
     (let urls_lst = filter (\<lambda>r. original r = original_url) (db s)
      in if urls_lst = [] then (Inl Not_Found, s)
         else (Inr (mset (map to_response urls_lst)), s))"

text \<open>
  \<open>db.add(new_url); db.commit()\<close>: the insert fails on a primary key that is already
  in the table, and the table is then as before. The column default gives
  \<open>get_num = 0\<close>; \<open>last_time\<close> is not set.
\<close>

definition insert_url :: "UrlsDB \<Rightarrow> state \<Rightarrow> error + state" where
  "insert_url new_url s =
     (if select_short (short new_url) (db s) \<noteq> [] then Inl IntegrityError
      else Inr (s\<lparr>db := db s @ [new_url]\<rparr>))"

text \<open>
  \<open>create_short\<close>. With an alias the table is queried first and an existing row is a
  409; without one the generated code is used unchecked.
\<close>

definition create_short ::
  "timestamp \<Rightarrow> nat \<Rightarrow> ShortUrlCreate \<Rightarrow> state \<Rightarrow> (error + ShortUrlResponse) \<times> state" where
  "create_short now uuid url s =
     (let chosen =
        (case alias_url url of
           Some alias \<Rightarrow>
             (case scalar_one_or_none (select_short alias (db s)) of
                Inl e \<Rightarrow> Inl e
              | Inr (Some existing) \<Rightarrow> Inl Conflict
              | Inr None \<Rightarrow> Inr alias)
         | None \<Rightarrow> Inr (generate_short_code uuid))
      in case chosen of
           Inl e \<Rightarrow> (Inl e, s)
         | Inr short_code \<Rightarrow>
             (let new_url = \<lparr>short = short_code, original = orig_url url,
                             registered_at = now, get_num = 0, last_time = None\<rparr>
              in case insert_url new_url s of
                   Inl e \<Rightarrow> (Inl e, s)
                 | Inr s1 \<Rightarrow>
                     (Inr \<lparr>orig_url_r = orig_url url, short_url = short_code,
                           registered_at_r = registered_at new_url\<rparr>,
                      invalidate_cache (short new_url) s1)))"

text \<open>
  The body of \<open>short_to_orig\<close>: the code is written to \<open>tw.txt\<close>, the row is read,
  and, when there is one, its counter is incremented and its last access time set.
  The commit of a counter that has left the range of its column raises, and the
  row stays as it was.
\<close>

definition short_to_orig_body :: "timestamp \<Rightarrow> string \<Rightarrow> state \<Rightarrow> (error + string) \<times> state" where
  "short_to_orig_body now short_code s =
     (let s1 = s\<lparr>tw_txt := Some short_code\<rparr>
      in case scalar_one_or_none (select_short short_code (db s1)) of
           Inl e \<Rightarrow> (Inl e, s1)
         | Inr None \<Rightarrow> (Inl Not_Found, s1)
         | Inr (Some url_entry) \<Rightarrow>
             if int32_max < get_num url_entry + 1 then (Inl DataError, s1)
             else
               (Inr (original url_entry),
                s1\<lparr>db := update_short short_code
                            (\<lambda>r. r\<lparr>get_num := get_num url_entry + 1, last_time := Some now\<rparr>)
                            (db s1)\<rparr>))"

text \<open>
  \<open>short_to_orig\<close> as the application serves it: the body under \<open>@cache(expire=60)\<close>.
  The arguments of the call, by which the decorator finds its entry, are the short
  code and the session.
\<close>

definition short_to_orig ::
  "timestamp \<Rightarrow> session \<Rightarrow> string \<Rightarrow> state \<Rightarrow> (error + string) \<times> state" where
  "short_to_orig now session short_code s =
     cached 60 (short_code, session) now (short_to_orig_body now short_code) s"

text \<open>
  \<open>delete_short_url\<close>: the delete is committed before the row count is looked at, and
  the cache is invalidated only when a row was deleted.
\<close>

definition delete_short_url :: "string \<Rightarrow> state \<Rightarrow> (error + string) \<times> state" where
  "delete_short_url short_code s =
     (let rowcount = length (select_short short_code (db s));
          s1 = s\<lparr>db := filter (\<lambda>r. short r \<noteq> short_code) (db s)\<rparr>
      in if rowcount = 0 then (Inl Not_Found, s1)
         else (Inr ''deleted'', invalidate_cache short_code s1))"

text \<open>
  \<open>update_original_url\<close>: \<open>UPDATE ... RETURNING\<close>, then \<open>scalar_one_or_none\<close> on the
  returned rows (an exception there leaves the update uncommitted), the commit, and
  404 when no row was returned.
\<close>

definition update_original_url ::
  "string \<Rightarrow> UrlUpdate \<Rightarrow> state \<Rightarrow> (error + ShortUrlResponse) \<times> state" where
  "update_original_url short_code url_data s =
     (let rows = update_short short_code (\<lambda>r. r\<lparr>original := orig_url_u url_data\<rparr>) (db s)
      in case scalar_one_or_none (select_short short_code rows) of
           Inl e \<Rightarrow> (Inl e, s)
         | Inr None \<Rightarrow> (Inl Not_Found, s\<lparr>db := rows\<rparr>)
         | Inr (Some updated_url) \<Rightarrow>
             (Inr (to_response updated_url), invalidate_cache short_code (s\<lparr>db := rows\<rparr>)))"

text \<open>\<open>get_url_stats\<close>: a select and a dictionary of the row's five columns.\<close>

definition get_url_stats :: "string \<Rightarrow> state \<Rightarrow> (error + ShortUrlStatsResponse) \<times> state" where
  "get_url_stats short_code s =
     (case scalar_one_or_none (select_short short_code (db s)) of
        Inl e \<Rightarrow> (Inl e, s)
      | Inr None \<Rightarrow> (Inl Not_Found, s)
      | Inr (Some url_entry) \<Rightarrow>
          (Inr \<lparr>orig_url_r = original url_entry, short_url = short url_entry,
                registered_at_r = registered_at url_entry,
                get_num_r = get_num url_entry, last_time_r = last_time url_entry\<rparr>, s))"

section \<open>The service as a state machine\<close>

text \<open>
  One request to each route of the application. A request to \<open>/links/shorten\<close> carries
  the number that the code generator draws while it is served, a request to
  \<open>/links/{short_code}\<close> the session that it is served with.
\<close>

datatype request =
    Search string
  | Shorten nat ShortUrlCreate
  | Resolve session string
  | Delete string
  | Update string UrlUpdate
  | Stats string

text \<open>The state after a request served at time \<open>now\<close>.\<close>

fun handle :: "timestamp \<Rightarrow> request \<Rightarrow> state \<Rightarrow> state" where
  "handle now (Search original_url) s = snd (search_links original_url s)"
| "handle now (Shorten uuid url) s = snd (create_short now uuid url s)"
| "handle now (Resolve session short_code) s = snd (short_to_orig now session short_code s)"
| "handle now (Delete short_code) s = snd (delete_short_url short_code s)"
| "handle now (Update short_code url_data) s = snd (update_original_url short_code url_data s)"
| "handle now (Stats short_code) s = snd (get_url_stats short_code s)"

text \<open>The service starts on an empty table (\<open>create_all\<close>) and an empty cache.\<close>

definition init_state :: state where
  "init_state = \<lparr>db = [], cache = Map.empty, tw_txt = None\<rparr>"

text \<open>The state after a sequence of requests, each with the time at which it is served.\<close>

fun run :: "(timestamp \<times> request) list \<Rightarrow> state \<Rightarrow> state" where
  "run [] s = s"
| "run ((now, req) # evs) s = run evs (handle now req s)"

section \<open>Invariants of the reachable states\<close>

text \<open>The primary key: no two rows of the table have the same \<open>short\<close>.\<close>

definition pk_unique :: "state \<Rightarrow> bool" where
  "pk_unique s = distinct (map short (db s))"

text \<open>
  Every cache entry of a short code is the \<open>original\<close> of the row that the table holds
  for this code: no entry outlives its row or its row's URL.
\<close>

definition cache_consistent :: "state \<Rightarrow> bool" where
  "cache_consistent s =
     (\<forall>code session v e. cache s (code, session) = Some (v, e)
        \<longrightarrow> (\<exists>r \<in> set (db s). short r = code \<and> original r = v))"

definition invariant :: "state \<Rightarrow> bool" where
  "invariant s = (pk_unique s \<and> cache_consistent s)"

text \<open>
  What one request may do to the rows: a row of the new table either continues a row of
  the old one with the same code, with a counter that is not smaller and the same
  registration time, or has a code that the old table did not hold.
\<close>

definition row_kept :: "UrlsDB list \<Rightarrow> UrlsDB \<Rightarrow> bool" where
  "row_kept rows r' =
     ((\<exists>x \<in> set rows. short x = short r' \<and> get_num x \<le> get_num r'
                       \<and> registered_at r' = registered_at x)
      \<or> (\<forall>x \<in> set rows. short x \<noteq> short r'))"

section \<open>Example states\<close>

text \<open>
  A table with one row that has never been visited, first with an empty cache, then
  with a cache entry that an earlier call with session 7 has left for the row's code.
\<close>

definition example_row :: UrlsDB where
  "example_row = \<lparr>short = ''abc123'', original = ''https://example.com'',
                   registered_at = 0, get_num = 0, last_time = None\<rparr>"

definition example_state :: state where
  "example_state = \<lparr>db = [example_row], cache = Map.empty, tw_txt = None\<rparr>"

definition stale_state :: state where
  "stale_state = \<lparr>db = [example_row],
                   cache = [(''abc123'', 7) \<mapsto> (''https://example.com'', 60)],
                   tw_txt = Some ''abc123''\<rparr>"

text \<open>
The same row after as many visits as its counter can hold.
\<close>

definition full_state :: state where
  "full_state = \<lparr>db = [example_row\<lparr>get_num := 2147483647, last_time := Some 0\<rparr>],
                  cache = Map.empty, tw_txt = Some ''abc123''\<rparr>"

text \<open>
A table in which two rows have the same URL and a third one has another.
\<close>

definition search_state :: state where
  "search_state =
     \<lparr>db = [example_row,
            \<lparr>short = ''other'', original = ''https://example.org'',
             registered_at = 1, get_num = 3, last_time = Some 2\<rparr>,
            \<lparr>short = ''again'', original = ''https://example.com'',
             registered_at = 4, get_num = 0, last_time = None\<rparr>],
      cache = Map.empty, tw_txt = None\<rparr>"

text \<open>
  A history of the service: a link is created under an alias and visited, a second one
  is created, and the first one is deleted.
\<close>

definition example_requests :: "(timestamp \<times> request) list" where
  "example_requests =
     [(0, Shorten 58 \<lparr>orig_url = ''https://example.com'', alias_url = Some ''abc123''\<rparr>),
      (1, Resolve 7 ''abc123''),
      (2, Shorten 58 \<lparr>orig_url = ''https://example.net'', alias_url = Some ''net''\<rparr>),
      (3, Delete ''abc123'')]"

section \<open>Facts about the database layer\<close>

text \<open>
  The equation of \<open>digits_of\<close> is used where a number is given, not as a rewrite
  rule.
\<close>

declare digits_of.simps [simp del]

lemma select_short_empty: "select_short c rows = [] \<longleftrightarrow> (\<forall>r \<in> set rows. short r \<noteq> c)"
  by (simp add: select_short_def filter_empty_conv)

lemma select_short_distinct:
  "distinct (map short rows) \<Longrightarrow> r \<in> set rows \<Longrightarrow> select_short (short r) rows = [r]"
  unfolding select_short_def
proof (induction rows)
  case Nil
  then show ?case by simp
next
  case (Cons a rows)
  show ?case
  proof (cases "a = r")
    case True
    with Cons.prems have "short r \<notin> short ` set rows" by auto
    then have "filter (\<lambda>x. short x = short r) rows = []"
      unfolding filter_empty_conv by (metis imageI)
    with True show ?thesis by simp
  next
    case False
    with Cons.prems have "r \<in> set rows" "short a \<noteq> short r" by auto
    with Cons show ?thesis by simp
  qed
qed

lemma select_short_cases:
  assumes "distinct (map short rows)"
  shows "select_short c rows = [] \<or> (\<exists>r \<in> set rows. short r = c \<and> select_short c rows = [r])"
proof (cases "\<exists>r \<in> set rows. short r = c")
  case True
  then obtain r where "r \<in> set rows" "short r = c" by auto
  with select_short_distinct[OF assms, of r] show ?thesis by auto
next
  case False
  then show ?thesis by (simp add: select_short_empty)
qed

lemma original_of_code:
  "pk_unique s \<Longrightarrow> (r::UrlsDB) \<in> set (db s) \<Longrightarrow> x \<in> set (db s) \<Longrightarrow> short x = short r \<Longrightarrow> x = r"
  using select_short_distinct[of "db s" r] select_short_distinct[of "db s" x]
  by (simp add: pk_unique_def)

lemma map_short_update_short:
  "(\<And>r. short (f r) = short r) \<Longrightarrow> map short (update_short c f rows) = map short rows"
  by (induction rows) (auto simp: update_short_def)

lemma set_update_short:
  "r' \<in> set (update_short c f rows) \<Longrightarrow>
     (r' \<in> set rows \<and> short r' \<noteq> c) \<or> (\<exists>r \<in> set rows. short r = c \<and> r' = f r)"
  by (auto simp: update_short_def split: if_splits)

lemma update_short_mem_other:
  "r \<in> set rows \<Longrightarrow> short r \<noteq> c \<Longrightarrow> r \<in> set (update_short c f rows)"
  by (force simp: update_short_def)

lemma update_short_mem_same:
  "r \<in> set rows \<Longrightarrow> short r = c \<Longrightarrow> f r \<in> set (update_short c f rows)"
  by (force simp: update_short_def)

lemma select_update_short:
  "(\<And>r. short (f r) = short r) \<Longrightarrow>
     select_short c (update_short c f rows) = map f (select_short c rows)"
  by (induction rows) (auto simp: select_short_def update_short_def)

lemma select_update_single:
  assumes "select_short code rows = [r]" "short (f r) = code"
  shows "select_short code (update_short code f rows) = [f r]"
  using assms
proof (induction rows)
  case Nil
  then show ?case by (simp add: select_short_def)
next
  case (Cons a rows)
  show ?case
  proof (cases "short a = code")
    case True
    with Cons.prems have a: "a = r" and e: "select_short code rows = []"
      by (simp_all add: select_short_def)
    from e have "update_short code f rows = rows"
      by (auto simp: select_short_empty update_short_def map_idI)
    with a e True Cons.prems show ?thesis by (simp add: select_short_def update_short_def)
  next
    case False
    with Cons show ?thesis by (simp add: select_short_def update_short_def)
  qed
qed

lemma filter_other_update_short:
  "(\<And>r. short (f r) = short r) \<Longrightarrow>
   filter (\<lambda>x. short x \<noteq> code) (update_short code f rows) = filter (\<lambda>x. short x \<noteq> code) rows"
  by (induction rows) (auto simp: update_short_def)

lemma cache_clear_apply:
  "cache_clear c m (code, session) = (if code = c then None else m (code, session))"
  by (simp add: cache_clear_def)

section \<open>The generated code is 22 characters or more\<close>

lemma length_int_to_string: "padding \<le> length (int_to_string number padding)"
  by (simp add: int_to_string_def Let_def)

lemma generate_short_code_length: "22 \<le> length (generate_short_code uuid)"
  unfolding generate_short_code_def by (rule length_int_to_string)

lemma generate_short_code_nonempty: "generate_short_code uuid \<noteq> []"
  using generate_short_code_length[of uuid] by auto

section \<open>The invariant holds in every reachable state\<close>

lemma invariant_init: "invariant init_state"
  by (simp add: invariant_def pk_unique_def cache_consistent_def init_state_def)

lemma invariant_search: "invariant s \<Longrightarrow> invariant (snd (search_links u s))"
  by (simp add: search_links_def Let_def)

lemma invariant_stats: "invariant s \<Longrightarrow> invariant (snd (get_url_stats c s))"
  by (simp add: get_url_stats_def split: sum.splits option.splits)

lemma create_success:
  assumes "create_short now uuid url s = (Inr resp, s')"
  shows "\<exists>code. select_short code (db s) = [] \<and>
           (case alias_url url of Some alias \<Rightarrow> code = alias | None \<Rightarrow> code = generate_short_code uuid) \<and>
           resp = \<lparr>orig_url_r = orig_url url, short_url = code, registered_at_r = now\<rparr> \<and>
           s' = s\<lparr>db := db s @ [\<lparr>short = code, original = orig_url url,
                                  registered_at = now, get_num = 0, last_time = None\<rparr>],
                  cache := cache_clear code (cache s)\<rparr>"
  using assms
  by (auto simp: create_short_def Let_def insert_url_def invalidate_cache_def
           split: option.splits sum.splits if_splits)

lemma create_failure:
  assumes "create_short now uuid url s = (Inl e, s')"
  shows "s' = s"
  using assms
  by (auto simp: create_short_def Let_def split: option.splits sum.splits)

lemma invariant_create:
  assumes "invariant s" shows "invariant (snd (create_short now uuid url s))"
proof (cases "create_short now uuid url s")
  case (Pair res s')
  show ?thesis
  proof (cases res)
    case (Inl e)
    with Pair create_failure[of now uuid url s e s'] assms show ?thesis by simp
  next
    case (Inr resp)
    from create_success[OF Pair[unfolded Inr]] obtain code where
      fresh: "select_short code (db s) = []"
      and s': "s' = s\<lparr>db := db s @ [\<lparr>short = code, original = orig_url url,
                                  registered_at = now, get_num = 0, last_time = None\<rparr>],
                  cache := cache_clear code (cache s)\<rparr>"
      by blast
    from assms fresh have "pk_unique s'"
      by (auto simp: s' invariant_def pk_unique_def select_short_empty)
    moreover have "cache_consistent s'"
      unfolding cache_consistent_def
    proof (intro allI impI)
      fix c session v e
      assume "cache s' (c, session) = Some (v, e)"
      then have "cache s (c, session) = Some (v, e)"
        by (simp add: s' cache_clear_apply split: if_splits)
      with assms obtain r where "r \<in> set (db s)" "short r = c" "original r = v"
        unfolding invariant_def cache_consistent_def by blast
      then show "\<exists>r \<in> set (db s'). short r = c \<and> original r = v"
        by (auto simp: s')
    qed
    ultimately show ?thesis using Pair by (simp add: invariant_def)
  qed
qed

lemma invariant_delete:
  assumes "invariant s" shows "invariant (snd (delete_short_url c s))"
proof (cases "select_short c (db s) = []")
  case True
  then have "filter (\<lambda>r. short r \<noteq> c) (db s) = db s"
    by (auto simp: select_short_empty filter_id_conv)
  with True assms show ?thesis
    by (simp add: delete_short_url_def Let_def invariant_def pk_unique_def cache_consistent_def)
next
  case False
  let ?s' = "snd (delete_short_url c s)"
  from False have eq: "db ?s' = filter (\<lambda>r. short r \<noteq> c) (db s)"
    "cache ?s' = cache_clear c (cache s)"
    by (simp_all add: delete_short_url_def Let_def invalidate_cache_def)
  from assms have "pk_unique ?s'"
    by (simp add: eq invariant_def pk_unique_def distinct_map_filter)
  moreover have "cache_consistent ?s'"
    unfolding cache_consistent_def
  proof (intro allI impI)
    fix code session v e
    assume h: "cache ?s' (code, session) = Some (v, e)"
    then have ne: "code \<noteq> c" and "cache s (code, session) = Some (v, e)"
      by (auto simp: eq cache_clear_apply split: if_splits)
    with assms obtain r where "r \<in> set (db s)" "short r = code" "original r = v"
      unfolding invariant_def cache_consistent_def by blast
    with ne show "\<exists>r \<in> set (db ?s'). short r = code \<and> original r = v"
      by (auto simp: eq)
  qed
  ultimately show ?thesis by (simp add: invariant_def)
qed

lemma body_db_cases:
  assumes "pk_unique s"
  shows "(select_short c (db s) = [] \<and> short_to_orig_body now c s = (Inl Not_Found, s\<lparr>tw_txt := Some c\<rparr>))
       \<or> (\<exists>r \<in> set (db s). short r = c \<and> select_short c (db s) = [r] \<and>
            int32_max < get_num r + 1 \<and>
            short_to_orig_body now c s = (Inl DataError, s\<lparr>tw_txt := Some c\<rparr>))
       \<or> (\<exists>r \<in> set (db s). short r = c \<and> select_short c (db s) = [r] \<and>
            get_num r + 1 \<le> int32_max \<and>
            short_to_orig_body now c s =
              (Inr (original r),
               s\<lparr>tw_txt := Some c,
                 db := update_short c (\<lambda>x. x\<lparr>get_num := get_num r + 1, last_time := Some now\<rparr>) (db s)\<rparr>))"
  using select_short_cases[of "db s" c] assms
  by (auto simp: short_to_orig_body_def Let_def pk_unique_def)

lemma body_failure:
  assumes "short_to_orig_body now c s = (Inl e, s')"
  shows "s' = s\<lparr>tw_txt := Some c\<rparr>"
  using assms
  by (auto simp: short_to_orig_body_def Let_def split: sum.splits option.splits if_splits)

lemma body_success:
  assumes "short_to_orig_body now code s = (Inr url, s')"
  shows "\<exists>r. select_short code (db s) = [r] \<and> url = original r \<and> get_num r + 1 \<le> int32_max \<and>
             s' = s\<lparr>tw_txt := Some code,
                    db := update_short code
                            (\<lambda>x. x\<lparr>get_num := get_num r + 1, last_time := Some now\<rparr>) (db s)\<rparr>"
proof (cases "select_short code (db s)" rule: scalar_one_or_none.cases)
  case 1
  with assms show ?thesis by (simp add: short_to_orig_body_def)
next
  case (2 x)
  with assms show ?thesis by (auto simp: short_to_orig_body_def Let_def split: if_splits)
next
  case (3 x y zs)
  with assms show ?thesis by (simp add: short_to_orig_body_def)
qed

lemma invariant_tw: "invariant s \<Longrightarrow> invariant (s\<lparr>tw_txt := t\<rparr>)"
  by (simp add: invariant_def pk_unique_def cache_consistent_def)

lemma invariant_resolve:
  assumes "invariant s" shows "invariant (snd (short_to_orig now session c s))"
proof (cases "cache_get now (c, session) (cache s)")
  case (Some v)
  with assms show ?thesis by (simp add: short_to_orig_def cached_def)
next
  case None
  from assms have pk: "pk_unique s" and cc: "cache_consistent s" by (simp_all add: invariant_def)
  obtain res sb where b: "short_to_orig_body now c s = (res, sb)"
    by (cases "short_to_orig_body now c s")
  show ?thesis
  proof (cases res)
    case (Inl e)
    with b body_failure[of now c s e sb] None invariant_tw[OF assms] show ?thesis
      by (simp add: short_to_orig_def cached_def)
  next
    case (Inr url)
    from body_success[OF b[unfolded Inr]] obtain r where
      sel: "select_short c (db s) = [r]" and url: "url = original r"
      and sb: "sb = s\<lparr>tw_txt := Some c,
                      db := update_short c
                              (\<lambda>x. x\<lparr>get_num := get_num r + 1, last_time := Some now\<rparr>) (db s)\<rparr>"
      by blast
    let ?f = "\<lambda>x. x\<lparr>get_num := get_num r + 1, last_time := Some now\<rparr>"
    from sel have "r \<in> set (select_short c (db s))" by simp
    then have r: "r \<in> set (db s)" "short r = c" by (simp_all add: select_short_def)
    let ?s' = "snd (short_to_orig now session c s)"
    have eq: "db ?s' = update_short c ?f (db s)"
             "cache ?s' = (cache s)((c, session) \<mapsto> (original r, now + 60))"
      using None b Inr by (simp_all add: short_to_orig_def cached_def cache_set_def sb url)
    from pk have "pk_unique ?s'" by (simp add: pk_unique_def eq map_short_update_short)
    moreover have "cache_consistent ?s'"
      unfolding cache_consistent_def
    proof (intro allI impI)
      fix code sess v e
      assume h: "cache ?s' (code, sess) = Some (v, e)"
      show "\<exists>x \<in> set (db ?s'). short x = code \<and> original x = v"
      proof (cases "code = c")
        case True
        have "v = original r"
        proof (cases "sess = session")
          case True
          with h \<open>code = c\<close> show ?thesis by (simp add: eq)
        next
          case False
          with h \<open>code = c\<close> have "cache s (c, sess) = Some (v, e)" by (simp add: eq)
          with cc obtain x where "x \<in> set (db s)" "short x = c" "original x = v"
            unfolding cache_consistent_def by blast
          with original_of_code[OF pk r(1), of x] r show ?thesis by simp
        qed
        moreover from r have "?f r \<in> set (db ?s')"
          using update_short_mem_same[of r "db s" c ?f] by (simp add: eq)
        ultimately show ?thesis using r True by (intro bexI[of _ "?f r"]) simp_all
      next
        case False
        with h have "cache s (code, sess) = Some (v, e)" by (simp add: eq)
        with cc obtain x where x: "x \<in> set (db s)" "short x = code" "original x = v"
          unfolding cache_consistent_def by blast
        with False have "x \<in> set (db ?s')" by (simp add: eq update_short_mem_other)
        with x show ?thesis by blast
      qed
    qed
    ultimately show ?thesis by (simp add: invariant_def)
  qed
qed

lemma update_cases:
  assumes "pk_unique s"
  shows "(select_short c (db s) = [] \<and> update_original_url c u s = (Inl Not_Found, s))
       \<or> (\<exists>r \<in> set (db s). short r = c \<and> select_short c (db s) = [r] \<and>
            update_original_url c u s =
              (Inr (to_response (r\<lparr>original := orig_url_u u\<rparr>)),
               s\<lparr>db := update_short c (\<lambda>x. x\<lparr>original := orig_url_u u\<rparr>) (db s),
                 cache := cache_clear c (cache s)\<rparr>))"
proof -
  let ?f = "\<lambda>x. x\<lparr>original := orig_url_u u\<rparr>"
  have sel: "select_short c (update_short c ?f (db s)) = map ?f (select_short c (db s))"
    by (rule select_update_short) simp
  from select_short_cases[OF assms[unfolded pk_unique_def], of c]
  show ?thesis
  proof (elim disjE bexE conjE)
    assume e: "select_short c (db s) = []"
    then have "update_short c ?f (db s) = db s"
      by (auto simp: select_short_empty update_short_def map_idI)
    with e sel show ?thesis by (simp add: update_original_url_def Let_def)
  next
    fix r assume "r \<in> set (db s)" "short r = c" "select_short c (db s) = [r]"
    with sel show ?thesis
      by (auto simp: update_original_url_def Let_def invalidate_cache_def)
  qed
qed

lemma invariant_update:
  assumes "invariant s" shows "invariant (snd (update_original_url c u s))"
proof -
  from assms have pk: "pk_unique s" and cc: "cache_consistent s" by (simp_all add: invariant_def)
  let ?f = "\<lambda>x. x\<lparr>original := orig_url_u u\<rparr>"
  from update_cases[OF pk, of c u] show ?thesis
  proof (elim disjE conjE bexE)
    assume "update_original_url c u s = (Inl Not_Found, s)"
    with assms show ?thesis by simp
  next
    fix r :: UrlsDB
    assume b: "update_original_url c u s =
              (Inr (to_response (?f r)),
               s\<lparr>db := update_short c ?f (db s), cache := cache_clear c (cache s)\<rparr>)"
    let ?s' = "snd (update_original_url c u s)"
    have eq: "db ?s' = update_short c ?f (db s)" "cache ?s' = cache_clear c (cache s)"
      by (simp_all add: b)
    have "pk_unique ?s'" using pk by (simp add: eq pk_unique_def map_short_update_short)
    moreover have "cache_consistent ?s'"
      unfolding cache_consistent_def
    proof (intro allI impI)
      fix code session v e
      assume "cache ?s' (code, session) = Some (v, e)"
      then have ne: "code \<noteq> c" and "cache s (code, session) = Some (v, e)"
        by (auto simp: eq cache_clear_apply split: if_splits)
      with cc obtain x where x: "x \<in> set (db s)" "short x = code" "original x = v"
        unfolding cache_consistent_def by blast
      with ne have "x \<in> set (db ?s')" by (simp add: eq update_short_mem_other)
      with x show "\<exists>r \<in> set (db ?s'). short r = code \<and> original r = v" by blast
    qed
    ultimately show ?thesis by (simp add: invariant_def)
  qed
qed

lemma invariant_handle: "invariant s \<Longrightarrow> invariant (handle now req s)"
  by (cases req)
     (simp_all add: invariant_search invariant_create invariant_resolve invariant_delete
        invariant_update invariant_stats)

lemma invariant_run: "invariant s \<Longrightarrow> invariant (run evs s)"
  by (induction evs arbitrary: s) (auto simp: invariant_handle)

lemma invariant_reachable: "invariant (run evs init_state)"
  by (rule invariant_run[OF invariant_init])

section \<open>Evaluation of the model on concrete states\<close>

lemmas model_defs =
  short_to_orig_def cached_def cache_get_def cache_set_def cache_clear_def
  short_to_orig_body_def select_short_def update_short_def int32_max_def
  invalidate_cache_def create_short_def insert_url_def
  delete_short_url_def update_original_url_def get_url_stats_def search_links_def
  to_response_def Let_def example_row_def example_state_def stale_state_def
  full_state_def search_state_def init_state_def

lemma short_code_58: "generate_short_code 58 = ''2222222222222222222233''"
  by code_simp

section \<open>Resolution and the record of visits\<close>

text \<open>
  What the body does when it runs: a successful resolution that the cache does not
  answer returns the \<open>original\<close> of the one row of its code, adds exactly 1 to the
  row's \<open>get_num\<close>, sets its \<open>last_time\<close> to the current time and leaves the rows
  of other codes as they were.
\<close>

lemma resolve_miss_records_visit:
  assumes "short_to_orig now session code s = (Inr url, s')"
    and "cache_get now (code, session) (cache s) = None"
  shows "\<exists>r. select_short code (db s) = [r] \<and> url = original r \<and>
             select_short code (db s') = [r\<lparr>get_num := get_num r + 1, last_time := Some now\<rparr>] \<and>
             filter (\<lambda>x. short x \<noteq> code) (db s') = filter (\<lambda>x. short x \<noteq> code) (db s)"
proof -
  obtain res sb where b: "short_to_orig_body now code s = (res, sb)"
    by (cases "short_to_orig_body now code s")
  with assms have res: "res = Inr url" and s': "db s' = db sb"
    by (auto simp: short_to_orig_def cached_def split: sum.splits)
  from body_success[OF b[unfolded res]] obtain r where
    r: "select_short code (db s) = [r]" "url = original r"
    and sb: "sb = s\<lparr>tw_txt := Some code,
                    db := update_short code
                            (\<lambda>x. x\<lparr>get_num := get_num r + 1, last_time := Some now\<rparr>) (db s)\<rparr>"
    by blast
  let ?f = "\<lambda>x. x\<lparr>get_num := get_num r + 1, last_time := Some now\<rparr>"
  from r(1) have "r \<in> set (select_short code (db s))" by simp
  then have sr: "short r = code" by (simp add: select_short_def)
  have "select_short code (db s') = [?f r]"
    using select_update_single[OF r(1), of ?f] sr by (simp add: s' sb)
  moreover have "filter (\<lambda>x. short x \<noteq> code) (db s') = filter (\<lambda>x. short x \<noteq> code) (db s)"
    using filter_other_update_short[of ?f code "db s"] by (simp add: s' sb)
  ultimately show ?thesis using r by blast
qed

text \<open>
  C1 does not hold of the code. The claim, with the spec's resolver, has the visit
  recorded on every successful resolution, also on one that the cache answers. In
  \<open>main.py\<close> the counter is written in the body of \<open>short_to_orig\<close>, and the
  decorator skips the body on a hit. On the table of one row: a first call, at
  time 0 with session 7, counts one visit and leaves its result in the cache; a second
  call with the same arguments, at time 1, succeeds with the URL, and the row still
  has \<open>get_num = 1\<close> and \<open>last_time = 0\<close>, where the claim wants 2 and 1. The
  same second request served with another session misses the cache and is counted:
  \<open>get_num = 2\<close>, \<open>last_time = 1\<close>.
\<close>

theorem visit_skipped_on_hit:
  "fst (short_to_orig 0 7 ''abc123'' example_state) = Inr ''https://example.com''
   \<and> db (snd (short_to_orig 0 7 ''abc123'' example_state))
       = [example_row\<lparr>get_num := 1, last_time := Some 0\<rparr>]
   \<and> fst (short_to_orig 1 7 ''abc123'' (snd (short_to_orig 0 7 ''abc123'' example_state)))
       = Inr ''https://example.com''
   \<and> db (snd (short_to_orig 1 7 ''abc123'' (snd (short_to_orig 0 7 ''abc123'' example_state))))
       = [example_row\<lparr>get_num := 1, last_time := Some 0\<rparr>]
   \<and> db (snd (short_to_orig 1 8 ''abc123'' (snd (short_to_orig 0 7 ''abc123'' example_state))))
       = [example_row\<lparr>get_num := 2, last_time := Some 1\<rparr>]"
  by (simp add: model_defs)

section \<open>Resolution after a miss\<close>

lemma resolve_after_clear:
  assumes "cache s (code, session) = None"
  shows "short_to_orig now session code s =
           (case short_to_orig_body now code s of
              (Inl e, s') \<Rightarrow> (Inl e, s')
            | (Inr v, s') \<Rightarrow> (Inr v, s'\<lparr>cache := cache_set now (code, session) v 60 (cache s')\<rparr>))"
  using assms by (simp add: short_to_orig_def cached_def cache_get_def)

lemma body_single:
  assumes "select_short code (db s) = [r]" "get_num r < int32_max"
  shows "fst (short_to_orig_body now code s) = Inr (original r)"
  using assms by (simp add: short_to_orig_body_def)

lemma body_none:
  assumes "select_short code (db s) = []"
  shows "short_to_orig_body now code s = (Inl Not_Found, s\<lparr>tw_txt := Some code\<rparr>)"
  using assms by (simp add: short_to_orig_body_def)

lemma resolve_miss_single:
  assumes "cache s (code, session) = None" "select_short code (db s) = [r]"
    "get_num r < int32_max"
  shows "fst (short_to_orig now session code s) = Inr (original r)"
proof -
  obtain res sb where b: "short_to_orig_body now code s = (res, sb)"
    by (cases "short_to_orig_body now code s")
  with body_single[OF assms(2,3), of now] have "res = Inr (original r)" by simp
  with b show ?thesis by (simp add: resolve_after_clear[OF assms(1)])
qed

lemma resolve_miss_none:
  assumes "cache s (code, session) = None" "select_short code (db s) = []"
  shows "short_to_orig now session code s = (Inl Not_Found, s\<lparr>tw_txt := Some code\<rparr>)"
  by (simp add: resolve_after_clear[OF assms(1)] body_none[OF assms(2)])

lemma no_row_no_entry:
  assumes "invariant s" "select_short code (db s) = []"
  shows "cache s (code, session) = None"
proof (cases "cache s (code, session)")
  case None
  then show ?thesis .
next
  case (Some p)
  obtain v e where "p = (v, e)" by (cases p)
  with Some assms(1) obtain r where "r \<in> set (db s)" "short r = code"
    unfolding invariant_def cache_consistent_def by blast
  with assms(2) show ?thesis by (simp add: select_short_empty)
qed

section \<open>Update, then resolve\<close>

text \<open>
  C2, as stated, fails for a row whose counter is at the top of its column. On the
  table whose one row has \<open>get_num = 2147483647\<close> the update succeeds, and the
  resolution that follows it cannot write \<open>2147483648\<close>: it ends in the database
  layer's exception and returns no URL.
\<close>

theorem C2_counterexample:
  "pk_unique full_state
   \<and> fst (update_original_url ''abc123'' \<lparr>orig_url_u = ''https://example.org''\<rparr> full_state)
       = Inr \<lparr>orig_url_r = ''https://example.org'', short_url = ''abc123'', registered_at_r = 0\<rparr>
   \<and> fst (short_to_orig 1 7 ''abc123''
            (snd (update_original_url ''abc123'' \<lparr>orig_url_u = ''https://example.org''\<rparr> full_state)))
       = Inl DataError"
  by (simp add: pk_unique_def model_defs)

text \<open>
  C2, amended: for a code that has a row in the table, with a counter below
  \<open>int32_max\<close>, \<open>update_original_url\<close> succeeds and the resolution that follows it,
  at any time and with any session, returns the new URL. The cache plays no part:
  whatever entries it held for the code are removed by the update.
\<close>

theorem update_then_resolve:
  assumes "pk_unique s" and "r \<in> set (db s)" and "short r = code"
    and "get_num r < int32_max"
  shows "\<exists>s1. update_original_url code url_data s
                 = (Inr (to_response (r\<lparr>original := orig_url_u url_data\<rparr>)), s1)
              \<and> fst (short_to_orig now session code s1) = Inr (orig_url_u url_data)"
proof -
  let ?f = "\<lambda>x. x\<lparr>original := orig_url_u url_data\<rparr>"
  let ?s1 = "s\<lparr>db := update_short code ?f (db s), cache := cache_clear code (cache s)\<rparr>"
  from assms have sel: "select_short code (db s) = [r]"
    using select_short_distinct[of "db s" r] by (simp add: pk_unique_def)
  with update_cases[OF assms(1), of code url_data]
  have u: "update_original_url code url_data s = (Inr (to_response (?f r)), ?s1)" by auto
  have row: "select_short code (db ?s1) = [?f r]"
    using select_update_single[OF sel, of ?f] assms(3) by simp
  have miss: "cache ?s1 (code, session) = None" by (simp add: cache_clear_apply)
  have low: "get_num (?f r) < int32_max" using assms(4) by simp
  have "fst (short_to_orig now session code ?s1) = Inr (original (?f r))"
    by (rule resolve_miss_single[OF miss row low])
  with u show ?thesis by simp
qed

text \<open>
  The amended C2 on the example: the cache holds the old URL of \<open>abc123\<close> for session 7
  and would serve it at time 1; after the update the resolution at time 1 with this
  session returns the new one.
\<close>

theorem update_then_resolve_witness:
  "pk_unique stale_state \<and> example_row \<in> set (db stale_state)
   \<and> get_num example_row < int32_max
   \<and> cache_get 1 (''abc123'', 7) (cache stale_state) = Some ''https://example.com''
   \<and> fst (short_to_orig 1 7 ''abc123''
            (snd (update_original_url ''abc123'' \<lparr>orig_url_u = ''https://example.org''\<rparr> stale_state)))
       = Inr ''https://example.org''"
proof -
  have pk: "pk_unique stale_state" by (simp add: pk_unique_def model_defs)
  have mem: "example_row \<in> set (db stale_state)" by (simp add: model_defs)
  have code: "short example_row = ''abc123''" by (simp add: model_defs)
  have low: "get_num example_row < int32_max" by (simp add: model_defs)
  have hit: "cache_get 1 (''abc123'', 7) (cache stale_state) = Some ''https://example.com''"
    by (simp add: model_defs)
  from update_then_resolve[OF pk mem code low, of "\<lparr>orig_url_u = ''https://example.org''\<rparr>" 1 7]
  have "fst (short_to_orig 1 7 ''abc123''
            (snd (update_original_url ''abc123'' \<lparr>orig_url_u = ''https://example.org''\<rparr> stale_state)))
       = Inr ''https://example.org''" by auto
  with pk mem low hit show ?thesis by simp
qed

section \<open>Creation\<close>

text \<open>
  When a creation succeeds: the code, alias or generated, must not be in the table. A
  generated code that is in the table is refused by the primary key.
\<close>

lemma create_fresh:
  assumes "select_short code (db s) = []"
    and "case alias_url url of Some alias \<Rightarrow> code = alias | None \<Rightarrow> code = generate_short_code uuid"
  shows "create_short now uuid url s =
           (Inr \<lparr>orig_url_r = orig_url url, short_url = code, registered_at_r = now\<rparr>,
            s\<lparr>db := db s @ [\<lparr>short = code, original = orig_url url,
                              registered_at = now, get_num = 0, last_time = None\<rparr>],
              cache := cache_clear code (cache s)\<rparr>)"
  using assms
  by (auto simp: create_short_def Let_def insert_url_def invalidate_cache_def split: option.splits)

lemma create_collision:
  assumes "alias_url url = None" and "select_short (generate_short_code uuid) (db s) \<noteq> []"
  shows "create_short now uuid url s = (Inl IntegrityError, s)"
  using assms by (simp add: create_short_def Let_def insert_url_def)

text \<open>
  C3: a creation without alias, of which the generated code is not yet in the table,
  succeeds; the \<open>short_url\<close> it returns is the generated code and is not empty; and
  a resolution of this code after it, at any time and with any session, returns the
  \<open>orig_url\<close> that was passed.
\<close>

theorem create_resolve_round_trip:
  assumes "alias_url url = None" and "select_short (generate_short_code uuid) (db s) = []"
  shows "\<exists>resp s1. create_short now uuid url s = (Inr resp, s1)
           \<and> short_url resp = generate_short_code uuid \<and> short_url resp \<noteq> []
           \<and> fst (short_to_orig now' session (short_url resp) s1) = Inr (orig_url url)"
proof -
  let ?code = "generate_short_code uuid"
  let ?new = "\<lparr>short = ?code, original = orig_url url,
                registered_at = now, get_num = 0, last_time = None\<rparr>"
  let ?resp = "\<lparr>orig_url_r = orig_url url, short_url = ?code, registered_at_r = now\<rparr>"
  let ?s1 = "s\<lparr>db := db s @ [?new], cache := cache_clear ?code (cache s)\<rparr>"
  have c: "create_short now uuid url s = (Inr ?resp, ?s1)"
    using assms(1) by (intro create_fresh[OF assms(2)]) simp
  from assms(2) have row: "select_short ?code (db ?s1) = [?new]"
    by (simp add: select_short_def)
  have miss: "cache ?s1 (?code, session) = None" by (simp add: cache_clear_apply)
  have low: "get_num ?new < int32_max" by (simp add: int32_max_def)
  have "fst (short_to_orig now' session ?code ?s1) = Inr (original ?new)"
    by (rule resolve_miss_single[OF miss row low])
  with c generate_short_code_nonempty[of uuid] show ?thesis by simp
qed

text \<open>
  C3 on the example: the generator draws 58 at time 7, which gives the code
  \<open>2222222222222222222233\<close>; the link is resolved at time 8.
\<close>

theorem create_resolve_round_trip_witness:
  "select_short (generate_short_code 58) (db stale_state) = []
   \<and> fst (create_short 7 58 \<lparr>orig_url = ''https://example.net'', alias_url = None\<rparr> stale_state)
     = Inr \<lparr>orig_url_r = ''https://example.net'', short_url = ''2222222222222222222233'',
            registered_at_r = 7\<rparr>
   \<and> fst (short_to_orig 8 3 ''2222222222222222222233''
            (snd (create_short 7 58 \<lparr>orig_url = ''https://example.net'', alias_url = None\<rparr>
                    stale_state)))
       = Inr ''https://example.net''"
proof -
  let ?url = "\<lparr>orig_url = ''https://example.net'', alias_url = None\<rparr>"
  have a: "alias_url ?url = None" by simp
  have f: "select_short (generate_short_code 58) (db stale_state) = []"
    by (simp add: short_code_58 model_defs)
  from create_resolve_round_trip[OF a f, of 7 8 3] obtain resp s1 where
    c: "create_short 7 58 ?url stale_state = (Inr resp, s1)"
    and r: "short_url resp = generate_short_code 58"
           "fst (short_to_orig 8 3 (short_url resp) s1) = Inr (orig_url ?url)"
    by blast
  have "fst (create_short 7 58 ?url stale_state)
     = Inr \<lparr>orig_url_r = ''https://example.net'', short_url = ''2222222222222222222233'',
            registered_at_r = 7\<rparr>"
    by (simp add: short_code_58 model_defs)
  with c r f show ?thesis by (simp add: short_code_58)
qed

text \<open>
  C4: in every state that the service reaches from its start, the resolution of a code
  that has no row fails with 404 and leaves the table and the cache as they were
  (so no entry is written for the code).
\<close>

theorem resolve_unknown_not_found:
  assumes "select_short code (db (run evs init_state)) = []"
  shows "fst (short_to_orig now session code (run evs init_state)) = Inl Not_Found
       \<and> db (snd (short_to_orig now session code (run evs init_state))) = db (run evs init_state)
       \<and> cache (snd (short_to_orig now session code (run evs init_state)))
           = cache (run evs init_state)"
proof -
  have "cache (run evs init_state) (code, session) = None"
    using invariant_reachable assms by (rule no_row_no_entry)
  from resolve_miss_none[OF this assms, of now] show ?thesis by simp
qed

text \<open>
  C4 on the example history: \<open>abc123\<close> was created, visited (and cached) and deleted;
  its resolution at time 4 is a 404, the table still holds the other link only and
  the cache has no entry for the call.
\<close>

theorem resolve_unknown_not_found_witness:
  "select_short ''abc123'' (db (run example_requests init_state)) = []
   \<and> fst (short_to_orig 4 7 ''abc123'' (run example_requests init_state)) = Inl Not_Found
   \<and> map short (db (snd (short_to_orig 4 7 ''abc123'' (run example_requests init_state)))) = [''net'']
   \<and> cache (snd (short_to_orig 4 7 ''abc123'' (run example_requests init_state))) (''abc123'', 7)
       = None"
proof -
  have gone: "select_short ''abc123'' (db (run example_requests init_state)) = []"
    by (simp add: example_requests_def model_defs)
  have rows: "map short (db (run example_requests init_state)) = [''net'']"
    by (simp add: example_requests_def model_defs)
  have entry: "cache (run example_requests init_state) (''abc123'', 7) = None"
    by (simp add: example_requests_def model_defs)
  from resolve_unknown_not_found[OF gone, of 4 7] gone rows entry show ?thesis by simp
qed

lemma create_taken:
  assumes "select_short alias (db s) = [r]" "alias_url url = Some alias"
  shows "create_short now uuid url s = (Inl Conflict, s)"
  using assms by (simp add: create_short_def)

text \<open>
  C5: a creation whose alias is the code of a row of the table fails with 409, and the
  state after it is the state before it: the row is as it was and no row is added.
\<close>

theorem create_alias_conflict:
  assumes "pk_unique s" and "r \<in> set (db s)" and "alias_url url = Some (short r)"
  shows "create_short now uuid url s = (Inl Conflict, s)"
proof -
  from assms(1,2) have "select_short (short r) (db s) = [r]"
    using select_short_distinct[of "db s" r] by (simp add: pk_unique_def)
  then show ?thesis using assms(3) by (rule create_taken)
qed

text \<open>
C5 on the example: the alias \<open>abc123\<close> is taken.
\<close>

theorem create_alias_conflict_witness:
  "pk_unique stale_state \<and> example_row \<in> set (db stale_state)
   \<and> create_short 9 58 \<lparr>orig_url = ''https://example.org'', alias_url = Some ''abc123''\<rparr>
        stale_state = (Inl Conflict, stale_state)"
proof -
  have pk: "pk_unique stale_state" by (simp add: pk_unique_def model_defs)
  have mem: "example_row \<in> set (db stale_state)" by (simp add: model_defs)
  have al: "alias_url \<lparr>orig_url = ''https://example.org'', alias_url = Some ''abc123''\<rparr>
              = Some (short example_row)" by (simp add: model_defs)
  from create_alias_conflict[OF pk mem al, of 9 58] pk mem show ?thesis by simp
qed

text \<open>
  C6: a successful creation appends one row to the table, with the URL passed,
  \<open>registered_at\<close> the current time, \<open>get_num = 0\<close> and no \<open>last_time\<close>; the
  response is made of this row's code, URL and registration time.
\<close>

theorem create_inserts_fresh_record:
  assumes "create_short now uuid url s = (Inr resp, s')"
  shows "\<exists>new_url. db s' = db s @ [new_url]
           \<and> original new_url = orig_url url
           \<and> registered_at new_url = now \<and> get_num new_url = 0 \<and> last_time new_url = None
           \<and> resp = to_response new_url"
proof -
  from create_success[OF assms] obtain code where
    "resp = \<lparr>orig_url_r = orig_url url, short_url = code, registered_at_r = now\<rparr>"
    "s' = s\<lparr>db := db s @ [\<lparr>short = code, original = orig_url url,
                              registered_at = now, get_num = 0, last_time = None\<rparr>],
             cache := cache_clear code (cache s)\<rparr>"
    by blast
  then show ?thesis by (simp add: to_response_def)
qed

text \<open>
C6 on the example: the row that a creation at time 7 adds.
\<close>

theorem create_inserts_fresh_record_witness:
  "db (snd (create_short 7 58 \<lparr>orig_url = ''https://example.net'', alias_url = None\<rparr>
              example_state))
     = [example_row, \<lparr>short = ''2222222222222222222233'', original = ''https://example.net'',
                      registered_at = 7, get_num = 0, last_time = None\<rparr>]"
proof -
  let ?url = "\<lparr>orig_url = ''https://example.net'', alias_url = None\<rparr>"
  let ?resp = "\<lparr>orig_url_r = ''https://example.net'', short_url = ''2222222222222222222233'',
                 registered_at_r = 7\<rparr>"
  let ?s' = "snd (create_short 7 58 ?url example_state)"
  have "fst (create_short 7 58 ?url example_state) = Inr ?resp"
    by (simp add: short_code_58 model_defs)
  then have c: "create_short 7 58 ?url example_state = (Inr ?resp, ?s')"
    by (metis prod.collapse)
  from create_inserts_fresh_record[OF c] obtain new_url where
    n: "db ?s' = db example_state @ [new_url]" "original new_url = orig_url ?url"
       "registered_at new_url = 7" "get_num new_url = 0" "last_time new_url = None"
       "?resp = to_response new_url"
    by blast
  from n(6) have "short new_url = ''2222222222222222222233''" by (simp add: to_response_def)
  with n have "new_url = \<lparr>short = ''2222222222222222222233'', original = ''https://example.net'',
                      registered_at = 7, get_num = 0, last_time = None\<rparr>"
    by (cases new_url) simp
  with n(1) show ?thesis by (simp add: example_state_def)
qed

section \<open>Deletion\<close>

text \<open>
  C7: when no row has the code, \<open>delete_short_url\<close> fails with 404 and the table is
  as before; otherwise it answers \<open>deleted\<close>, the table is the old one without the
  rows of this code, and a resolution of the code after it fails with 404.
\<close>

theorem delete_then_resolve:
  "(select_short code (db s) = [] \<longrightarrow>
      fst (delete_short_url code s) = Inl Not_Found \<and> db (snd (delete_short_url code s)) = db s)
   \<and> (select_short code (db s) \<noteq> [] \<longrightarrow>
      fst (delete_short_url code s) = Inr ''deleted''
      \<and> db (snd (delete_short_url code s)) = filter (\<lambda>r. short r \<noteq> code) (db s)
      \<and> fst (short_to_orig now session code (snd (delete_short_url code s))) = Inl Not_Found)"
proof (intro conjI impI)
  assume e: "select_short code (db s) = []"
  then show "fst (delete_short_url code s) = Inl Not_Found"
    by (simp add: delete_short_url_def)
  from e have "filter (\<lambda>r. short r \<noteq> code) (db s) = db s"
    by (simp add: select_short_empty filter_id_conv)
  with e show "db (snd (delete_short_url code s)) = db s"
    by (simp add: delete_short_url_def)
next
  assume ne: "select_short code (db s) \<noteq> []"
  let ?s1 = "snd (delete_short_url code s)"
  from ne show "fst (delete_short_url code s) = Inr ''deleted''"
    by (simp add: delete_short_url_def)
  from ne show d: "db ?s1 = filter (\<lambda>r. short r \<noteq> code) (db s)"
    by (simp add: delete_short_url_def invalidate_cache_def)
  from ne have c: "cache ?s1 (code, session) = None"
    by (simp add: delete_short_url_def invalidate_cache_def cache_clear_apply)
  have "select_short code (db ?s1) = []"
    by (simp add: d select_short_empty)
  from resolve_miss_none[OF c this, of now]
  show "fst (short_to_orig now session code ?s1) = Inl Not_Found" by simp
qed

text \<open>
  C7 on the example: the deletion of \<open>abc123\<close>, whose URL the cache holds, and the
  deletion of a code that the table does not have.
\<close>

theorem delete_then_resolve_witness:
  "select_short ''abc123'' (db stale_state) \<noteq> []
   \<and> fst (delete_short_url ''abc123'' stale_state) = Inr ''deleted''
   \<and> db (snd (delete_short_url ''abc123'' stale_state)) = []
   \<and> cache (snd (delete_short_url ''abc123'' stale_state)) (''abc123'', 7) = None
   \<and> fst (short_to_orig 1 7 ''abc123'' (snd (delete_short_url ''abc123'' stale_state))) = Inl Not_Found
   \<and> select_short ''nope'' (db stale_state) = []
   \<and> fst (delete_short_url ''nope'' stale_state) = Inl Not_Found"
proof -
  have a: "select_short ''abc123'' (db stale_state) \<noteq> []" by (simp add: model_defs)
  have b: "select_short ''nope'' (db stale_state) = []" by (simp add: model_defs)
  have c: "db (snd (delete_short_url ''abc123'' stale_state)) = []"
    "cache (snd (delete_short_url ''abc123'' stale_state)) (''abc123'', 7) = None"
    by (simp_all add: model_defs)
  from delete_then_resolve[of "''abc123''" stale_state 1 7]
       delete_then_resolve[of "''nope''" stale_state 1 7]
    a b c show ?thesis by simp
qed

section \<open>What a request may change in a row\<close>

lemma row_kept_mem: "r' \<in> set rows \<Longrightarrow> row_kept rows r'"
  unfolding row_kept_def by (intro disjI1 bexI[of _ r']) simp_all

lemma kept_search: "r' \<in> set (db (snd (search_links u s))) \<Longrightarrow> row_kept (db s) r'"
  by (simp add: search_links_def Let_def row_kept_mem split: if_splits)

lemma kept_stats: "r' \<in> set (db (snd (get_url_stats c s))) \<Longrightarrow> row_kept (db s) r'"
  by (simp add: get_url_stats_def row_kept_mem split: sum.splits option.splits)

lemma kept_delete: "r' \<in> set (db (snd (delete_short_url c s))) \<Longrightarrow> row_kept (db s) r'"
  by (simp add: delete_short_url_def Let_def invalidate_cache_def row_kept_mem split: if_splits)

lemma kept_create:
  assumes "r' \<in> set (db (snd (create_short now uuid url s)))"
  shows "row_kept (db s) r'"
proof (cases "create_short now uuid url s")
  case (Pair res s')
  show ?thesis
  proof (cases res)
    case (Inl e)
    with Pair have "s' = s" using create_failure[of now uuid url s e s'] by simp
    with Pair assms show ?thesis by (simp add: row_kept_mem)
  next
    case (Inr resp)
    from create_success[OF Pair[unfolded Inr]] obtain code where
      fresh: "select_short code (db s) = []"
      and s': "db s' = db s @ [\<lparr>short = code, original = orig_url url,
                              registered_at = now, get_num = 0, last_time = None\<rparr>]"
      by auto
    from assms Pair s' have "r' \<in> set (db s) \<or> short r' = code" by auto
    then show ?thesis
    proof
      assume "r' \<in> set (db s)"
      then show ?thesis by (rule row_kept_mem)
    next
      assume "short r' = code"
      with fresh show ?thesis by (simp add: row_kept_def select_short_empty)
    qed
  qed
qed

lemma kept_update:
  assumes "pk_unique s" "r' \<in> set (db (snd (update_original_url c u s)))"
  shows "row_kept (db s) r'"
proof -
  let ?f = "\<lambda>x. x\<lparr>original := orig_url_u u\<rparr>"
  from update_cases[OF assms(1), of c u] show ?thesis
  proof (elim disjE conjE bexE)
    assume "update_original_url c u s = (Inl Not_Found, s)"
    with assms(2) show ?thesis by (simp add: row_kept_mem)
  next
    fix r :: UrlsDB
    assume "update_original_url c u s =
              (Inr (to_response (?f r)),
               s\<lparr>db := update_short c ?f (db s), cache := cache_clear c (cache s)\<rparr>)"
    with assms(2) have "r' \<in> set (update_short c ?f (db s))" by simp
    from set_update_short[OF this] show ?thesis
    proof (elim disjE conjE bexE)
      assume "r' \<in> set (db s)"
      then show ?thesis by (rule row_kept_mem)
    next
      fix x assume "x \<in> set (db s)" "r' = ?f x"
      then show ?thesis unfolding row_kept_def by (intro disjI1 bexI[of _ x]) simp_all
    qed
  qed
qed

lemma kept_resolve:
  assumes "pk_unique s" "r' \<in> set (db (snd (short_to_orig now session c s)))"
  shows "row_kept (db s) r'"
proof (cases "cache_get now (c, session) (cache s)")
  case (Some v)
  with assms(2) show ?thesis by (simp add: short_to_orig_def cached_def row_kept_mem)
next
  case None
  obtain res sb where b: "short_to_orig_body now c s = (res, sb)"
    by (cases "short_to_orig_body now c s")
  show ?thesis
  proof (cases res)
    case (Inl e)
    with b body_failure[of now c s e sb] None assms(2) show ?thesis
      by (simp add: short_to_orig_def cached_def row_kept_mem)
  next
    case (Inr url)
    from body_success[OF b[unfolded Inr]] obtain r where
      sel: "select_short c (db s) = [r]"
      and sb: "sb = s\<lparr>tw_txt := Some c,
                      db := update_short c
                              (\<lambda>x. x\<lparr>get_num := get_num r + 1, last_time := Some now\<rparr>) (db s)\<rparr>"
      by blast
    let ?f = "\<lambda>x. x\<lparr>get_num := get_num r + 1, last_time := Some now\<rparr>"
    from sel have "r \<in> set (select_short c (db s))" by simp
    then have r: "r \<in> set (db s)" "short r = c" by (simp_all add: select_short_def)
    from None b Inr assms(2) have "r' \<in> set (update_short c ?f (db s))"
      by (simp add: short_to_orig_def cached_def sb)
    from set_update_short[OF this] show ?thesis
    proof (elim disjE conjE bexE)
      assume "r' \<in> set (db s)"
      then show ?thesis by (rule row_kept_mem)
    next
      fix x assume x: "x \<in> set (db s)" "short x = c" "r' = ?f x"
      with r have "x = r" using original_of_code[OF assms(1), of r x] by simp
      with x r show ?thesis unfolding row_kept_def by (intro disjI1 bexI[of _ r]) simp_all
    qed
  qed
qed

lemma kept_handle:
  assumes "pk_unique s" "r' \<in> set (db (handle now req s))"
  shows "row_kept (db s) r'"
  using assms
  by (cases req) (simp_all add: kept_search kept_create kept_resolve kept_delete kept_update kept_stats)

text \<open>
  C8: whatever the request, a row that is in the table before it and whose code is
  still in the table after it has a \<open>get_num\<close> that has not decreased and the same
  \<open>registered_at\<close>.
\<close>

theorem visits_monotone_registered_fixed:
  assumes "pk_unique s" and "r \<in> set (db s)"
    and "r' \<in> set (db (handle now req s))" and "short r' = short r"
  shows "get_num r \<le> get_num r' \<and> registered_at r' = registered_at r"
proof -
  from kept_handle[OF assms(1,3)] assms(2,4) obtain x where
    x: "x \<in> set (db s)" "short x = short r'" "get_num x \<le> get_num r'"
       "registered_at r' = registered_at x"
    unfolding row_kept_def by metis
  with assms have "x = r" using original_of_code[OF assms(1,2), of x] by simp
  with x show ?thesis by simp
qed

text \<open>
C8 on the example: a resolution at time 99 that the cache does not answer any more.
\<close>

theorem visits_monotone_registered_fixed_witness:
  "pk_unique stale_state \<and> example_row \<in> set (db stale_state)
   \<and> db (handle 99 (Resolve 7 ''abc123'') stale_state) = [example_row\<lparr>get_num := 1, last_time := Some 99\<rparr>]
   \<and> get_num example_row \<le> get_num (example_row\<lparr>get_num := 1, last_time := Some 99\<rparr>)
   \<and> registered_at (example_row\<lparr>get_num := 1, last_time := Some 99\<rparr>) = registered_at example_row"
proof -
  let ?r' = "example_row\<lparr>get_num := 1, last_time := Some 99\<rparr>"
  have pk: "pk_unique stale_state" by (simp add: pk_unique_def model_defs)
  have mem: "example_row \<in> set (db stale_state)" by (simp add: model_defs)
  have d: "db (handle 99 (Resolve 7 ''abc123'') stale_state) = [?r']"
    by (simp add: model_defs)
  then have mem': "?r' \<in> set (db (handle 99 (Resolve 7 ''abc123'') stale_state))" by simp
  have sh: "short ?r' = short example_row" by simp
  from visits_monotone_registered_fixed[OF pk mem mem' sh] pk mem d show ?thesis by simp
qed

section \<open>Search and statistics\<close>

text \<open>
  C9: when no row has the queried string as its \<open>original\<close>, \<open>search_links\<close> fails
  with 404; when some row has, it succeeds, and what it returns is not empty and
  is, row for row, the responses of the rows whose \<open>original\<close> equals the query,
  and of no other row. The state is not changed.
\<close>

theorem search_exact_match:
  "((\<forall>r \<in> set (db s). original r \<noteq> original_url) \<longrightarrow>
       search_links original_url s = (Inl Not_Found, s))
   \<and> ((\<exists>r \<in> set (db s). original r = original_url) \<longrightarrow>
       search_links original_url s
         = (Inr (image_mset to_response (filter_mset (\<lambda>r. original r = original_url) (mset (db s)))), s)
       \<and> image_mset to_response (filter_mset (\<lambda>r. original r = original_url) (mset (db s))) \<noteq> {#})"
proof (intro conjI impI)
  assume "\<forall>r \<in> set (db s). original r \<noteq> original_url"
  then have "filter (\<lambda>r. original r = original_url) (db s) = []"
    by (simp add: filter_empty_conv)
  then show "search_links original_url s = (Inl Not_Found, s)"
    by (simp add: search_links_def)
next
  assume m: "\<exists>r \<in> set (db s). original r = original_url"
  then have ne: "filter (\<lambda>r. original r = original_url) (db s) \<noteq> []"
    by (simp add: filter_empty_conv)
  then show "search_links original_url s
         = (Inr (image_mset to_response (filter_mset (\<lambda>r. original r = original_url) (mset (db s)))), s)"
    by (simp add: search_links_def)
  from m show "image_mset to_response (filter_mset (\<lambda>r. original r = original_url) (mset (db s))) \<noteq> {#}"
    by auto
qed

text \<open>
  C9 on the table of three rows: the exact URL finds its two rows and not the third;
  with a slash added, cut short or in upper case it finds nothing.
\<close>

theorem search_exact_match_witness:
  "search_links ''https://example.com'' search_state
     = (Inr {#\<lparr>orig_url_r = ''https://example.com'', short_url = ''again'', registered_at_r = 4\<rparr>,
              \<lparr>orig_url_r = ''https://example.com'', short_url = ''abc123'', registered_at_r = 0\<rparr>#},
        search_state)
   \<and> search_links ''https://example.com/'' search_state = (Inl Not_Found, search_state)
   \<and> search_links ''https://example'' search_state = (Inl Not_Found, search_state)
   \<and> search_links ''HTTPS://EXAMPLE.COM'' search_state = (Inl Not_Found, search_state)"
proof -
  have a: "\<forall>r \<in> set (db search_state). original r \<noteq> ''https://example.com/''"
    by (simp add: model_defs)
  have b: "\<forall>r \<in> set (db search_state). original r \<noteq> ''https://example''"
    by (simp add: model_defs)
  have c: "\<forall>r \<in> set (db search_state). original r \<noteq> ''HTTPS://EXAMPLE.COM''"
    by (simp add: model_defs)
  have d: "\<exists>r \<in> set (db search_state). original r = ''https://example.com''"
    by (simp add: model_defs)
  have e: "image_mset to_response
             (filter_mset (\<lambda>r. original r = ''https://example.com'') (mset (db search_state)))
           = {#\<lparr>orig_url_r = ''https://example.com'', short_url = ''again'', registered_at_r = 4\<rparr>,
               \<lparr>orig_url_r = ''https://example.com'', short_url = ''abc123'', registered_at_r = 0\<rparr>#}"
    by (simp add: model_defs)
  from search_exact_match[of search_state "''https://example.com/''"]
       search_exact_match[of search_state "''https://example''"]
       search_exact_match[of search_state "''HTTPS://EXAMPLE.COM''"]
       search_exact_match[of search_state "''https://example.com''"] a b c d e
  show ?thesis by simp
qed

text \<open>
  C10: \<open>get_url_stats\<close> returns the state it was given, whether it finds a row or
  not: the table, the cache and the file are untouched.
\<close>

theorem stats_read_only: "snd (get_url_stats short_code s) = s"
  by (simp add: get_url_stats_def split: sum.splits option.splits)

end
